theory Spec2Isabelle
  imports Main
begin

section \<open>Strings\<close>

text \<open>
  A Python \<open>str\<close> is a sequence of Unicode code points, so a string is modelled as the
  list of its code points. \<open>ustr\<close> reads an ASCII literal; characters beyond ASCII are
  written as their code point (\<open>233\<close> is U+00E9, \<open>8226\<close> is the bullet U+2022).
\<close>

type_synonym pystr = "nat list"

abbreviation (input) star :: nat where "star \<equiv> 42"
abbreviation (input) nl :: nat where "nl \<equiv> 10"

definition ustr :: "string \<Rightarrow> pystr" where
  "ustr s = map of_char s"

text \<open>\<open>sep.join(xs)\<close>.\<close>

fun str_join :: "pystr \<Rightarrow> pystr list \<Rightarrow> pystr" where
  "str_join sep [] = []"
| "str_join sep [x] = x"
| "str_join sep (x # y # ys) = x @ sep @ str_join sep (y # ys)"

text \<open>\<open>s.startswith(p)\<close> and the substring test \<open>p in s\<close>.\<close>

definition py_startswith :: "pystr \<Rightarrow> pystr \<Rightarrow> bool" where
  "py_startswith p s = (take (length p) s = p)"

fun py_in :: "pystr \<Rightarrow> pystr \<Rightarrow> bool" where
  "py_in sub [] = (sub = [])"
| "py_in sub (c # cs) = (py_startswith sub (c # cs) \<or> py_in sub cs)"

text \<open>
  \<open>s.split(sep)\<close> for a separator of one character and of two characters: the
  occurrences of the separator are found from the left and do not overlap; the result
  always has at least one element.
\<close>

fun split_char :: "nat \<Rightarrow> pystr \<Rightarrow> pystr list" where
  "split_char sep [] = [[]]"
| "split_char sep (c # cs) =
     (if c = sep then [] # split_char sep cs
      else (case split_char sep cs of
              [] \<Rightarrow> [[c]]
            | p # ps \<Rightarrow> (c # p) # ps))"

fun split_pair :: "nat \<Rightarrow> nat \<Rightarrow> pystr \<Rightarrow> pystr list" where
  "split_pair a b [] = [[]]"
| "split_pair a b [c] = [[c]]"
| "split_pair a b (c # d # cs) =
     (if c = a \<and> d = b then [] # split_pair a b cs
      else (case split_pair a b (d # cs) of
              [] \<Rightarrow> [[c]]
            | p # ps \<Rightarrow> (c # p) # ps))"

text \<open>
  \<open>str.isspace\<close> for one character (the code points Python treats as whitespace) and
  \<open>s.strip()\<close>.
\<close>

definition py_isspace :: "nat \<Rightarrow> bool" where
  "py_isspace c =
     ((9 \<le> c \<and> c \<le> 13) \<or> (28 \<le> c \<and> c \<le> 32) \<or> c = 133 \<or> c = 160 \<or> c = 5760
      \<or> (8192 \<le> c \<and> c \<le> 8202) \<or> c = 8232 \<or> c = 8233 \<or> c = 8239 \<or> c = 8287
      \<or> c = 12288)"

definition py_strip :: "pystr \<Rightarrow> pystr" where
  "py_strip s = rev (dropWhile py_isspace (rev (dropWhile py_isspace s)))"

text \<open>Exceptions carry the text that \<open>str(e)\<close> returns.\<close>

datatype py_exception = PyException (exn_str: pystr)

text \<open>\<open>xs[-1]\<close>: the last element, IndexError on the empty list.\<close>

definition py_last :: "'a list \<Rightarrow> py_exception + 'a" where
  "py_last xs =
     (if xs = [] then Inl (PyException (ustr ''list index out of range''))
      else Inr (last xs))"

section \<open>Text normalizer: \<open>clean_text\<close>\<close>

text \<open>
  First substitution, \<open>re.sub(r"\*\*(.*?)\*\*", r"\1", text)\<close>. The scan goes from the
  left. At a position where two asterisks stand, the lazy group takes the shortest run
  of characters other than newline (\<open>.\<close> does not match a newline) that is followed by
  two asterisks: \<open>find_close\<close> returns that group and the text after the closing pair.
  A match is replaced by its group and the scan goes on after the match; where nothing
  matches, the character is copied and the scan moves one position on.
\<close>

fun starts2 :: "pystr \<Rightarrow> bool" where
  "starts2 (a # b # cs) = (a = star \<and> b = star)"
| "starts2 _ = False"

fun find_close :: "pystr \<Rightarrow> (pystr \<times> pystr) option" where
  "find_close [] = None"
| "find_close (c # cs) =
     (if starts2 (c # cs) then Some ([], tl cs)
      else if c = nl then None
      else (case find_close cs of
              None \<Rightarrow> None
            | Some (g, r) \<Rightarrow> Some (c # g, r)))"

lemma find_close_length: "find_close xs = Some (g, r) \<Longrightarrow> length r < length xs"
proof (induction xs arbitrary: g)
  case Nil
  then show ?case by simp
next
  case (Cons c cs)
  show ?case
  proof (cases "starts2 (c # cs)")
    case True
    with Cons.prems show ?thesis by (cases cs) auto
  next
    case False
    with Cons.prems obtain g' where "find_close cs = Some (g', r)"
      by (auto split: if_splits option.splits)
    from Cons.IH[OF this] show ?thesis by simp
  qed
qed

function sub_bold :: "pystr \<Rightarrow> pystr" where
  "sub_bold [] = []"
| "sub_bold (c # cs) =
     (if starts2 (c # cs) then
        (case find_close (tl cs) of
           Some (g, r) \<Rightarrow> g @ sub_bold r
         | None \<Rightarrow> c # sub_bold cs)
      else c # sub_bold cs)"
  by pat_completeness auto
termination
proof (relation "measure length")
  show "wf (measure length)" by simp
next
  fix c cs x2 x y
  assume "starts2 (c # cs)" "find_close (tl cs) = Some x2" "(x, y) = x2"
  then have "length y < length (tl cs)"
    using find_close_length[of "tl cs" x y] by simp
  then show "(y, c # cs) \<in> measure length" by simp
qed auto

text \<open>
  Second substitution, \<open>re.sub(r"[^\x00-\x7F]+", "", text)\<close>: every maximal run of
  characters above U+007F is deleted, so exactly the characters up to U+007F stay.
\<close>

definition strip_non_ascii :: "pystr \<Rightarrow> pystr" where
  "strip_non_ascii text = filter (\<lambda>c. c \<le> 127) text"

text \<open>
  Third substitution, \<open>re.sub(r"\n{2,}", "\n", text)\<close>: where at least two newlines
  stand, the greedy match takes the whole run and one newline replaces it.
\<close>

fun starts_nl :: "pystr \<Rightarrow> bool" where
  "starts_nl (d # _) = (d = nl)"
| "starts_nl [] = False"

function collapse_newlines :: "pystr \<Rightarrow> pystr" where
  "collapse_newlines [] = []"
| "collapse_newlines (c # cs) =
     (if c = nl \<and> starts_nl cs
      then nl # collapse_newlines (dropWhile (\<lambda>d. d = nl) cs)
      else c # collapse_newlines cs)"
  by pat_completeness auto
termination
  by (relation "measure length") (auto simp: length_dropWhile_le less_Suc_eq_le)

definition clean_text :: "pystr \<Rightarrow> pystr" where
  "clean_text text = collapse_newlines (strip_non_ascii (sub_bold text))"

text \<open>
  Predicates on texts: \<open>has_match s\<close> holds when the first pattern matches somewhere in
  \<open>s\<close> (a span wrapped in double asterisks on one line), \<open>has_star2 s\<close> when two
  asterisks stand side by side, \<open>has_nl_run s\<close> when two newlines do. \<open>star_safe s\<close>:
  no two asterisks side by side in \<open>s\<close>, and \<open>s\<close> does not end with an asterisk.
  \<open>plain c\<close>: an ASCII character other than the asterisk and the newline.
  \<open>printable_ascii c\<close>: the printable 7-bit range, U+0020 to U+007E.
\<close>

definition matchable :: "pystr \<Rightarrow> bool" where
  "matchable s = (starts2 s \<and> find_close (drop 2 s) \<noteq> None)"

fun has_match :: "pystr \<Rightarrow> bool" where
  "has_match [] = False"
| "has_match (c # cs) = (matchable (c # cs) \<or> has_match cs)"

fun has_star2 :: "pystr \<Rightarrow> bool" where
  "has_star2 [] = False"
| "has_star2 (c # cs) = (starts2 (c # cs) \<or> has_star2 cs)"

fun has_nl_run :: "pystr \<Rightarrow> bool" where
  "has_nl_run (a # b # cs) = ((a = nl \<and> b = nl) \<or> has_nl_run (b # cs))"
| "has_nl_run _ = False"

definition star_safe :: "pystr \<Rightarrow> bool" where
  "star_safe s = (\<not> has_star2 (s @ [star]))"

definition plain :: "nat \<Rightarrow> bool" where
  "plain c = (c \<le> 127 \<and> c \<noteq> star \<and> c \<noteq> nl)"

definition printable_ascii :: "nat \<Rightarrow> bool" where
  "printable_ascii c = (32 \<le> c \<and> c \<le> 126)"

section \<open>Generators: \<open>generate_notes\<close>, \<open>generate_aptitude_questions\<close>\<close>

text \<open>
  The language-model service is a parameter \<open>generate_content\<close>: it maps the prompt to
  the text of the response, or raises. Both generators return the normalized response
  and let an exception of the service pass.
\<close>

definition notes_prompt :: "pystr \<Rightarrow> pystr" where
  "notes_prompt subject = str_join [nl]
     [[],
      ustr ''        Title: Structured Study Notes on '' @ subject,
      ustr ''        '',
      ustr ''        As an AI assistant, your task is to generate **structured and detailed notes** from the transcript of a YouTube video. '',
      [],
      ustr ''        The notes should be **well-formatted** and include:'',
      ustr ''        - **Main topics & key concepts** (as section headings).'',
      ustr ''        - **Bullet points or numbered lists** for explanations.'',
      ustr ''        - **Examples, formulas, or real-world applications** (if mentioned in the video).'',
      ustr ''        - **Concise explanations** that improve readability.'',
      [],
      ustr ''        Here is the transcript of the video. Please extract and format the information into **structured and detailed notes**.'',
      ustr ''    '']"

definition generate_notes ::
  "(pystr \<Rightarrow> py_exception + pystr) \<Rightarrow> pystr \<Rightarrow> pystr \<Rightarrow> py_exception + pystr" where
  "generate_notes generate_content transcript_text subject =
     (case generate_content (notes_prompt subject @ transcript_text) of
        Inl e \<Rightarrow> Inl e
      | Inr response \<Rightarrow> Inr (clean_text response))"

definition questions_prompt :: "pystr \<Rightarrow> pystr" where
  "questions_prompt subject = str_join [nl]
     [[],
      ustr ''        Title: Placement Aptitude Questions for '' @ subject,
      ustr ''        '',
      ustr ''        As an AI assistant, generate **5-7 placement-level aptitude questions** commonly asked in technical interviews related to '' @ subject @ ustr ''. '',
      ustr ''        Ensure the questions cover:'',
      ustr ''        - **Conceptual understanding**'',
      ustr ''        - **Problem-solving scenarios**'',
      ustr ''        - **Real-world applications**'',
      ustr ''        - **Multiple-choice or open-ended questions**'',
      [],
      ustr ''        Format the questions properly with numbering.'',
      ustr ''    '']"

definition generate_aptitude_questions ::
  "(pystr \<Rightarrow> py_exception + pystr) \<Rightarrow> pystr \<Rightarrow> py_exception + pystr" where
  "generate_aptitude_questions generate_content subject =
     (case generate_content (questions_prompt subject) of
        Inl e \<Rightarrow> Inl e
      | Inr response \<Rightarrow> Inr (clean_text response))"

text \<open>A service that answers every prompt with the same text.\<close>

definition const_llm :: "pystr \<Rightarrow> pystr \<Rightarrow> py_exception + pystr" where
  "const_llm response prompt = Inr response"

section \<open>Transcript extractor: \<open>extract_transcript\<close>\<close>

text \<open>
  A caption fragment as the caption service returns it: its text and its timing. The
  service is a parameter \<open>get_transcript\<close>: it maps the video identifier to the
  fragments in order, or raises.
\<close>

record 'f caption =
  "text" :: pystr
  start :: 'f
  duration :: 'f

text \<open>
  The body of the \<open>try\<close>: the identifier is the part after the last \<open>v=\<close> (\<open>118\<close> is
  \<open>v\<close>, \<open>61\<close> is \<open>=\<close>); the texts of the fragments are joined with one space.
\<close>

definition extract_try ::
  "(pystr \<Rightarrow> py_exception + 'f caption list) \<Rightarrow> pystr \<Rightarrow> py_exception + pystr" where
  "extract_try get_transcript youtube_url =
     (case py_last (split_pair 118 61 youtube_url) of
        Inl e \<Rightarrow> Inl e
      | Inr video_id \<Rightarrow>
          (case get_transcript video_id of
             Inl e \<Rightarrow> Inl e
           | Inr transcript \<Rightarrow> Inr (str_join (ustr '' '') (map text transcript))))"

text \<open>The \<open>except Exception\<close> clause turns every exception of the body into a string.\<close>

definition extract_transcript ::
  "(pystr \<Rightarrow> py_exception + 'f caption list) \<Rightarrow> pystr \<Rightarrow> pystr" where
  "extract_transcript get_transcript youtube_url =
     (case extract_try get_transcript youtube_url of
        Inr transcript_text \<Rightarrow> transcript_text
      | Inl e \<Rightarrow> ustr ''Error fetching transcript: '' @ exn_str e)"

text \<open>Services used in examples: one that raises, one that returns given fragments.\<close>

definition failing_service :: "pystr \<Rightarrow> pystr \<Rightarrow> py_exception + nat caption list" where
  "failing_service msg video_id = Inl (PyException msg)"

definition fixed_service :: "nat caption list \<Rightarrow> pystr \<Rightarrow> py_exception + nat caption list" where
  "fixed_service frags video_id = Inr frags"

section \<open>Document exporter: \<open>save_as_pdf\<close>\<close>

text \<open>
  The PDF library is outside the repository. The document object is modelled as the
  sequence of the layout calls made on it, in order; how the library wraps, paginates
  and encodes them is not modelled. \<open>Cell w h txt ln align\<close> is
  \<open>cell(w, h, txt, ln=ln, align=align)\<close>, \<open>MultiCell w h txt\<close> is
  \<open>multi_cell(w, h, txt)\<close>, \<open>SetFont family style size\<close> is \<open>set_font\<close>.
\<close>

datatype pdf_op =
    SetAutoPageBreak bool nat
  | AddPage
  | SetFont pystr pystr nat
  | Cell nat nat pystr bool pystr
  | Ln nat
  | MultiCell nat nat pystr

type_synonym fpdf = "pdf_op list"

type_synonym files = "pystr \<rightharpoonup> fpdf"

text \<open>
  \<open>re.match(r"^\d+\.", line)\<close>: one or more decimal digits at the start of the line,
  then a period. In a \<open>str\<close> pattern \<open>\d\<close> matches every Unicode decimal digit; the
  table of the decimal digits beyond ASCII is the parameter \<open>nd\<close>.
\<close>

definition is_digit :: "(nat \<Rightarrow> bool) \<Rightarrow> nat \<Rightarrow> bool" where
  "is_digit nd c = ((48 \<le> c \<and> c \<le> 57) \<or> (127 < c \<and> nd c))"

definition numbered :: "(nat \<Rightarrow> bool) \<Rightarrow> pystr \<Rightarrow> bool" where
  "numbered nd line =
     (takeWhile (is_digit nd) line \<noteq> [] \<and> py_startswith [46] (dropWhile (is_digit nd) line))"

text \<open>
  The loop over the lines of the notes, and the loop over the lines of the questions.
  A line is skipped when \<open>line.strip()\<close> is empty. \<open>45\<close> is the hyphen, \<open>8226\<close> the
  bullet U+2022, \<open>46\<close> the period.
\<close>

fun notes_loop :: "pystr list \<Rightarrow> fpdf \<Rightarrow> fpdf" where
  "notes_loop [] pdf = pdf"
| "notes_loop (line # lines) pdf =
     notes_loop lines
       (if py_strip line \<noteq> [] then
          (let pdf = (if py_startswith [45] line \<or> py_startswith [star] line
                         \<or> py_startswith [8226] line
                      then pdf @ [Cell 10 0 [] False []] else pdf)
           in pdf @ [MultiCell 0 7 line])
        else pdf)"

fun questions_loop :: "(nat \<Rightarrow> bool) \<Rightarrow> pystr list \<Rightarrow> fpdf \<Rightarrow> fpdf" where
  "questions_loop nd [] pdf = pdf"
| "questions_loop nd (line # lines) pdf =
     questions_loop nd lines
       (if py_strip line \<noteq> [] then
          (let pdf = (if numbered nd line then pdf @ [Ln 3] else pdf)
           in pdf @ [MultiCell 0 7 line])
        else pdf)"

text \<open>The calls made on the document before it is written.\<close>

definition build_pdf :: "(nat \<Rightarrow> bool) \<Rightarrow> pystr \<Rightarrow> pystr \<Rightarrow> pystr \<Rightarrow> fpdf" where
  "build_pdf nd notes questions subject =
     (let pdf = [];
          pdf = pdf @ [SetAutoPageBreak True 15];
          pdf = pdf @ [AddPage];
          pdf = pdf @ [SetFont (ustr ''Arial'') (ustr ''B'') 16];
          pdf = pdf @ [Cell 200 10 (ustr ''Study Notes on '' @ subject) True (ustr ''C'')];
          pdf = pdf @ [Ln 10];
          pdf = pdf @ [SetFont (ustr ''Arial'') (ustr ''B'') 14];
          pdf = pdf @ [Cell 200 10 (ustr ''Detailed Notes'') True []];
          pdf = pdf @ [Ln 5];
          pdf = pdf @ [SetFont (ustr ''Arial'') [] 12];
          pdf = notes_loop (split_char nl notes) pdf;
          pdf = pdf @ [Ln 10];
          pdf = pdf @ [SetFont (ustr ''Arial'') (ustr ''B'') 14];
          pdf = pdf @ [Cell 200 10 (ustr ''Placement Aptitude Questions'') True []];
          pdf = pdf @ [Ln 5];
          pdf = pdf @ [SetFont (ustr ''Arial'') [] 12];
          pdf = questions_loop nd (split_char nl questions) pdf
      in pdf)"

text \<open>
  \<open>pdf.output(pdf_filename, "F")\<close> writes the file or raises: the parameter
  \<open>pdf_output\<close> tells, for a file name and a document, the exception raised, if any.
  A written file replaces a file of the same name.
\<close>

definition save_as_pdf ::
  "(pystr \<Rightarrow> fpdf \<Rightarrow> py_exception option) \<Rightarrow> (nat \<Rightarrow> bool) \<Rightarrow>
     pystr \<Rightarrow> pystr \<Rightarrow> pystr \<Rightarrow> files \<Rightarrow> py_exception + (pystr \<times> files)" where
  "save_as_pdf pdf_output nd notes questions subject fs =
     (let pdf = build_pdf nd notes questions subject;
          pdf_filename = subject @ ustr ''_study_notes.pdf''
      in case pdf_output pdf_filename pdf of
           Some e \<Rightarrow> Inl e
         | None \<Rightarrow> Inr (pdf_filename, fs(pdf_filename \<mapsto> pdf)))"


definition nonblank :: "pystr \<Rightarrow> bool" where
  "nonblank line = (\<exists>c \<in> set line. \<not> py_isspace c)"

definition note_ops :: "pystr \<Rightarrow> fpdf" where
  "note_ops line =
     (if py_startswith [45] line \<or> py_startswith [star] line \<or> py_startswith [8226] line
      then [Cell 10 0 [] False []] else []) @ [MultiCell 0 7 line]"

definition question_ops :: "(nat \<Rightarrow> bool) \<Rightarrow> pystr \<Rightarrow> fpdf" where
  "question_ops nd line = (if numbered nd line then [Ln 3] else []) @ [MultiCell 0 7 line]"

definition output_ok :: "pystr \<Rightarrow> fpdf \<Rightarrow> py_exception option" where
  "output_ok pdf_filename pdf = None"


definition ascii_digits_only :: "nat \<Rightarrow> bool" where
  "ascii_digits_only c = False"

section \<open>The pipeline: the button of \<open>main\<close>\<close>

text \<open>
  What a press of the button does (the body of \<open>if st.button(...)\<close>): the calls made
  on the page in order, the files afterwards, and the exception that ended the run, if
  one did. The page set-up before the button (title, choice of the subject, input of
  the link, thumbnail) calls nothing of the pipeline and is not modelled.
\<close>

datatype ui_event =
    St_success pystr
  | St_markdown pystr
  | St_write pystr
  | St_download_button pystr fpdf pystr pystr
  | St_error pystr

record run =
  ui :: "ui_event list"
  files_after :: files
  raised :: "py_exception option"

text \<open>The texts shown on the page.\<close>

definition transcript_ok_msg :: pystr where
  "transcript_ok_msg = 9989 # ustr '' Transcript extracted successfully!''"

definition notes_heading_md :: pystr where
  "notes_heading_md = ustr ''## '' @ 128218 # ustr '' Detailed Notes:''"

definition questions_heading_md :: pystr where
  "questions_heading_md = ustr ''## '' @ 127919 # ustr '' Possible Placement Aptitude Questions:''"

definition download_label :: pystr where
  "download_label = 128229 # ustr '' Download Notes as PDF''"

definition failed_msg :: pystr where
  "failed_msg = [9888, 65039] @ ustr '' Failed to extract transcript. Please check the video link.''"

definition main_button ::
  "(pystr \<Rightarrow> py_exception + 'f caption list) \<Rightarrow> (pystr \<Rightarrow> py_exception + pystr) \<Rightarrow>
     (pystr \<Rightarrow> fpdf \<Rightarrow> py_exception option) \<Rightarrow> (nat \<Rightarrow> bool) \<Rightarrow>
     pystr \<Rightarrow> pystr \<Rightarrow> files \<Rightarrow> run" where
  "main_button get_transcript generate_content pdf_output nd subject youtube_link fs =
     (let transcript_text = extract_transcript get_transcript youtube_link in
      if transcript_text \<noteq> [] \<and> \<not> py_in (ustr ''Error'') transcript_text then
        (let shown = [St_success transcript_ok_msg] in
         case generate_notes generate_content transcript_text subject of
           Inl e \<Rightarrow> \<lparr>ui = shown, files_after = fs, raised = Some e\<rparr>
         | Inr detailed_notes \<Rightarrow>
             (let shown = shown @ [St_markdown notes_heading_md, St_write detailed_notes] in
              case generate_aptitude_questions generate_content subject of
                Inl e \<Rightarrow> \<lparr>ui = shown, files_after = fs, raised = Some e\<rparr>
              | Inr aptitude_questions \<Rightarrow>
                  (let shown = shown @
                         [St_markdown questions_heading_md, St_write aptitude_questions] in
                   case save_as_pdf pdf_output nd detailed_notes aptitude_questions subject fs of
                     Inl e \<Rightarrow> \<lparr>ui = shown, files_after = fs, raised = Some e\<rparr>
                   | Inr (pdf_filename, fs') \<Rightarrow>
                       (case fs' pdf_filename of
                          None \<Rightarrow>
                            \<lparr>ui = shown, files_after = fs',
                             raised = Some (PyException (ustr ''No such file or directory''))\<rparr>
                        | Some file \<Rightarrow>
                            \<lparr>ui = shown @
                               [St_download_button download_label file pdf_filename
                                  (ustr ''application/pdf'')],
                             files_after = fs', raised = None\<rparr>))))
      else \<lparr>ui = [St_error failed_msg], files_after = fs, raised = None\<rparr>)"

section \<open>Properties of the normalizer\<close>

text \<open>
  The first substitution leaves nothing that it could match again
  (\<open>sub_bold_no_match\<close>), and the third substitution creates no match
  (\<open>has_match_collapse\<close>). Only the second one can: deleting the characters above
  U+007F may bring asterisks together.
\<close>

lemma starts2_iff: "starts2 s = (\<exists>r. s = star # star # r)"
  by (cases s rule: starts2.cases) auto

lemma starts2_sub_bold: "starts2 (c # sub_bold cs) \<Longrightarrow> starts2 (c # cs)"
proof (cases cs)
  case Nil then show "starts2 (c # sub_bold cs) \<Longrightarrow> ?thesis" by simp
next
  case (Cons d ds)
  assume a: "starts2 (c # sub_bold cs)"
  show ?thesis
  proof (cases "d = star")
    case True with a Cons show ?thesis by (cases "sub_bold cs") auto
  next
    case False
    then have "\<not> starts2 (d # ds)" by (cases ds) auto
    then have "sub_bold (d # ds) = d # sub_bold ds" by simp
    with a Cons False show ?thesis by simp
  qed
qed

lemma find_close_None_sub_bold:
  "find_close xs = None \<Longrightarrow> find_close (sub_bold xs) = None"
proof (induction xs)
  case Nil then show ?case by simp
next
  case (Cons c cs)
  from Cons.prems have ns: "\<not> starts2 (c # cs)" by (auto split: if_splits)
  then have eq: "sub_bold (c # cs) = c # sub_bold cs" by simp
  from ns have ns': "\<not> starts2 (c # sub_bold cs)" using starts2_sub_bold by blast
  show ?case
  proof (cases "c = nl")
    case True with eq ns' show ?thesis by simp
  next
    case False
    with Cons.prems ns have "find_close cs = None" by (auto split: option.splits)
    then have "find_close (sub_bold cs) = None" by (rule Cons.IH)
    with eq ns' False show ?thesis by simp
  qed
qed

lemma find_close_SomeD:
  "find_close xs = Some (g, r) \<Longrightarrow> xs = g @ star # star # r \<and> nl \<notin> set g"
proof (induction xs arbitrary: g)
  case Nil then show ?case by simp
next
  case (Cons c cs)
  show ?case
  proof (cases "starts2 (c # cs)")
    case True
    with Cons.prems show ?thesis by (auto simp: starts2_iff)
  next
    case False
    with Cons.prems obtain g' where g': "find_close cs = Some (g', r)" "g = c # g'" "c \<noteq> nl"
      by (auto split: if_splits option.splits)
    from Cons.IH[OF g'(1)] g'(2,3) show ?thesis by simp
  qed
qed




lemma find_close_group_no_match:
  "find_close xs = Some (g, r) \<Longrightarrow> has_match (g @ t) = has_match t"
proof (induction xs arbitrary: g)
  case Nil then show ?case by simp
next
  case (Cons c cs)
  show ?case
  proof (cases "starts2 (c # cs)")
    case True
    with Cons.prems show ?thesis by simp
  next
    case False
    with Cons.prems obtain g' where g': "find_close cs = Some (g', r)" "g = c # g'"
      by (auto split: if_splits option.splits)
    from find_close_SomeD[OF g'(1)] have cs: "cs = g' @ star # star # r" by simp
    have "\<not> starts2 (c # g' @ t)"
    proof (cases g')
      case Nil
      with cs False show ?thesis by (cases t) auto
    next
      case (Cons d g'')
      with cs False show ?thesis by simp
    qed
    then have "\<not> matchable (c # g' @ t)" by (simp add: matchable_def)
    with Cons.IH[OF g'(1)] g'(2) show ?thesis by simp
  qed
qed

lemma sub_bold_no_match: "\<not> has_match (sub_bold s)"
proof (induction s rule: sub_bold.induct)
  case 1 show ?case by simp
next
  case (2 c cs)
  show ?case
  proof (cases "starts2 (c # cs)")
    case False
    then have "\<not> starts2 (c # sub_bold cs)" using starts2_sub_bold by blast
    then have "\<not> matchable (c # sub_bold cs)" by (simp add: matchable_def)
    with False "2.IH"(3) show ?thesis by simp
  next
    case True
    then obtain cs' where cs: "c = star" "cs = star # cs'" by (auto simp: starts2_iff)
    show ?thesis
    proof (cases "find_close (tl cs)")
      case (Some p)
      obtain g r where p: "p = (g, r)" by (cases p)
      from "2.IH"(2)[OF True Some p[symmetric]] have "\<not> has_match (sub_bold r)" .
      then have "\<not> has_match (g @ sub_bold r)"
        using find_close_group_no_match[of "tl cs" g r] Some p by simp
      with True Some p show ?thesis by simp
    next
      case None
      with cs have n: "find_close cs' = None" by simp
      from "2.IH"(1)[OF True None] have ih: "\<not> has_match (sub_bold cs)" .
      have "sub_bold cs = star # sub_bold cs'"
      proof (cases "starts2 cs")
        case False with cs show ?thesis by simp
      next
        case True
        with cs obtain cs'' where c2: "cs' = star # cs''" by (auto simp: starts2_iff)
        with n have "\<not> starts2 cs'" by (auto split: if_splits)
        with n c2 have "find_close cs'' = None" by (auto split: if_splits option.splits)
        with cs c2 show ?thesis by simp
      qed
      moreover have "find_close (sub_bold cs') = None"
        using n by (rule find_close_None_sub_bold)
      ultimately have "\<not> matchable (c # sub_bold cs)" using cs by (simp add: matchable_def)
      with True None ih show ?thesis by simp
    qed
  qed
qed

lemma sub_bold_fixed: "\<not> has_match s \<Longrightarrow> sub_bold s = s"
proof (induction s)
  case Nil then show ?case by simp
next
  case (Cons c cs)
  then have m: "\<not> matchable (c # cs)" and ih: "sub_bold cs = cs" by auto
  show ?case
  proof (cases "starts2 (c # cs)")
    case True
    with m have "find_close (tl cs) = None"
      by (cases "find_close (tl cs)") (auto simp: matchable_def drop_Suc)
    with True ih show ?thesis by simp
  next
    case False
    with ih show ?thesis by simp
  qed
qed

lemma sub_bold_idem: "sub_bold (sub_bold s) = sub_bold s"
  by (rule sub_bold_fixed) (rule sub_bold_no_match)

lemma starts2_nl [simp]: "\<not> starts2 (nl # t)"
  by (cases t) auto

lemma has_nl_run_Cons: "has_nl_run (c # t) = ((c = nl \<and> starts_nl t) \<or> has_nl_run t)"
  by (cases t) auto

lemma starts_nl_dropWhile [simp]: "\<not> starts_nl (dropWhile (\<lambda>d. d = nl) cs)"
  by (induction cs) auto

lemma collapse_Cons:
  "collapse_newlines (c # cs) =
     c # collapse_newlines (if c = nl then dropWhile (\<lambda>d. d = nl) cs else cs)"
  by (cases cs) auto


lemma starts_nl_collapse [simp]: "starts_nl (collapse_newlines cs) = starts_nl cs"
  by (cases cs) (simp_all only: collapse_Cons collapse_newlines.simps(1) starts_nl.simps)

lemma set_collapse: "set (collapse_newlines xs) \<subseteq> set xs"
proof (induction xs rule: collapse_newlines.induct)
  case 1 show ?case by simp
next
  case (2 c cs)
  show ?case
  proof (cases "c = nl \<and> starts_nl cs")
    case True
    from "2.IH"(1)[OF True] have "set (collapse_newlines (dropWhile (\<lambda>d. d = nl) cs)) \<subseteq> set cs"
      using set_dropWhileD by fastforce
    with True show ?thesis by auto
  next
    case False
    from "2.IH"(2)[OF False] False show ?thesis by auto
  qed
qed

lemma collapse_no_run: "\<not> has_nl_run (collapse_newlines xs)"
proof (induction xs rule: collapse_newlines.induct)
  case 1 show ?case by simp
next
  case (2 c cs)
  show ?case
  proof (cases "c = nl \<and> starts_nl cs")
    case True
    have "\<not> has_nl_run (collapse_newlines (dropWhile (\<lambda>d. d = nl) cs))"
      using "2.IH"(1)[OF True] .
    then have "\<not> has_nl_run (nl # collapse_newlines (dropWhile (\<lambda>d. d = nl) cs))"
      by (simp add: has_nl_run_Cons)
    with True show ?thesis by simp
  next
    case False
    have "\<not> has_nl_run (collapse_newlines cs)" using "2.IH"(2)[OF False] .
    with False have "\<not> has_nl_run (c # collapse_newlines cs)"
      by (auto simp: has_nl_run_Cons)
    moreover have "collapse_newlines (c # cs) = c # collapse_newlines cs"
      using False by auto
    ultimately show ?thesis by (simp del: collapse_newlines.simps)
  qed
qed







lemma strip_ascii_id: "\<forall>c\<in>set y. c \<le> 127 \<Longrightarrow> strip_non_ascii y = y"
  by (simp add: strip_non_ascii_def)

lemma clean_text_ascii: "\<forall>c\<in>set (clean_text x). c \<le> 127"
proof
  fix c assume "c \<in> set (clean_text x)"
  then have "c \<in> set (strip_non_ascii (sub_bold x))"
    using set_collapse unfolding clean_text_def by blast
  then show "c \<le> 127" by (simp add: strip_non_ascii_def)
qed




lemma filter_sub_bold: "\<not> P star \<Longrightarrow> filter P (sub_bold s) = filter P s"
proof (induction s rule: sub_bold.induct)
  case 1 show ?case by simp
next
  case (2 c cs)
  show ?case
  proof (cases "starts2 (c # cs)")
    case False
    with "2.IH"(3) "2.prems" show ?thesis by simp
  next
    case True
    then obtain cs' where cs: "c = star" "cs = star # cs'" by (auto simp: starts2_iff)
    show ?thesis
    proof (cases "find_close (tl cs)")
      case None
      with True "2.IH"(1) "2.prems" show ?thesis by simp
    next
      case (Some p)
      obtain g r where p: "p = (g, r)" by (cases p)
      from "2.IH"(2)[OF True Some p[symmetric] "2.prems"]
      have ih: "filter P (sub_bold r) = filter P r" .
      from Some p cs have "cs' = g @ star # star # r" using find_close_SomeD[of cs' g r] by simp
      with cs "2.prems" have "filter P (c # cs) = filter P g @ filter P r" by simp
      with ih True Some p show ?thesis by simp
    qed
  qed
qed

lemma filter_dropWhile_nl: "\<not> P nl \<Longrightarrow> filter P (dropWhile (\<lambda>d. d = nl) cs) = filter P cs"
  by (induction cs) auto

lemma filter_collapse: "\<not> P nl \<Longrightarrow> filter P (collapse_newlines y) = filter P y"
proof (induction y rule: collapse_newlines.induct)
  case 1 show ?case by simp
next
  case (2 c cs)
  show ?case
  proof (cases "c = nl \<and> starts_nl cs")
    case True
    from "2.IH"(1)[OF True "2.prems"] filter_dropWhile_nl[of P cs] "2.prems"
    have "filter P (collapse_newlines (dropWhile (\<lambda>d. d = nl) cs)) = filter P cs" by simp
    with True "2.prems" show ?thesis by simp
  next
    case False
    from "2.IH"(2)[OF False "2.prems"] have "filter P (collapse_newlines cs) = filter P cs" .
    moreover have "collapse_newlines (c # cs) = c # collapse_newlines cs" using False by auto
    ultimately show ?thesis by (simp del: collapse_newlines.simps)
  qed
qed

lemma filter_plain_clean_text: "filter plain (clean_text x) = filter plain x"
proof -
  have "filter plain (clean_text x) = filter plain (strip_non_ascii (sub_bold x))"
    unfolding clean_text_def by (rule filter_collapse) (simp add: plain_def)
  also have "\<dots> = filter plain (sub_bold x)"
    unfolding strip_non_ascii_def by (auto simp: plain_def intro: filter_cong)
  also have "\<dots> = filter plain x"
    by (rule filter_sub_bold) (simp add: plain_def)
  finally show ?thesis .
qed

lemma star_safe_Cons: "star_safe (c # s) \<Longrightarrow> star_safe s \<and> \<not> starts2 (c # s @ t)"
  by (cases s) (auto simp: star_safe_def starts2_iff)

lemma sub_bold_append_safe: "star_safe s \<Longrightarrow> sub_bold (s @ t) = s @ sub_bold t"
proof (induction s)
  case Nil show ?case by simp
next
  case (Cons c s)
  from star_safe_Cons[OF Cons.prems, of t] Cons.IH show ?case by simp
qed

lemma find_close_exact:
  "nl \<notin> set g \<Longrightarrow> star_safe g \<Longrightarrow> find_close (g @ star # star # r) = Some (g, r)"
proof (induction g)
  case Nil show ?case by simp
next
  case (Cons c g)
  from star_safe_Cons[OF Cons.prems(2), of "star # star # r"] Cons.IH Cons.prems(1)
  show ?case by simp
qed

lemma sub_bold_unwrap:
  assumes "star_safe pre" "star_safe inner" "nl \<notin> set inner"
  shows "sub_bold (pre @ star # star # inner @ star # star # post) = pre @ inner @ sub_bold post"
proof -
  have "sub_bold (star # star # inner @ star # star # post) = inner @ sub_bold post"
    using find_close_exact[OF assms(3,2), of post] by simp
  with sub_bold_append_safe[OF assms(1)] show ?thesis by simp
qed

lemma dropWhile_nl_append:
  "i \<noteq> nl \<Longrightarrow> dropWhile (\<lambda>d. d = nl) (a @ i # r) = dropWhile (\<lambda>d. d = nl) a @ i # r"
  by (induction a) auto

lemma starts_nl_append: "i \<noteq> nl \<Longrightarrow> starts_nl (a @ i # r) = starts_nl a"
  by (cases a) auto

lemma collapse_append_left:
  "i \<noteq> nl \<Longrightarrow> collapse_newlines (a @ i # r) = collapse_newlines a @ collapse_newlines (i # r)"
proof (induction a rule: collapse_newlines.induct)
  case 1 show ?case by simp
next
  case (2 c cs)
  show ?case
  proof (cases "c = nl \<and> starts_nl cs")
    case True
    from "2.IH"(1)[OF True "2.prems"] True "2.prems" show ?thesis
      by (simp add: dropWhile_nl_append starts_nl_append del: collapse_newlines.simps(2))
        (simp add: starts_nl_append dropWhile_nl_append)
  next
    case False
    have e1: "collapse_newlines (c # cs) = c # collapse_newlines cs" using False by auto
    have "\<not> (c = nl \<and> starts_nl (cs @ i # r))" using False "2.prems" by (simp add: starts_nl_append)
    then have e2: "collapse_newlines (c # cs @ i # r) = c # collapse_newlines (cs @ i # r)" by auto
    from "2.IH"(2)[OF False "2.prems"] e1 e2 show ?thesis by (simp del: collapse_newlines.simps)
  qed
qed

lemma collapse_append_plain:
  "nl \<notin> set g \<Longrightarrow> collapse_newlines (g @ b) = g @ collapse_newlines b"
  by (induction g) auto

lemma collapse_around:
  assumes "nl \<notin> set g" "g \<noteq> []"
  shows "collapse_newlines (a @ g @ b) = collapse_newlines a @ g @ collapse_newlines b"
proof -
  from assms obtain i g' where g: "g = i # g'" "i \<noteq> nl" by (cases g) auto
  have "collapse_newlines (a @ i # (g' @ b)) = collapse_newlines a @ collapse_newlines (i # g' @ b)"
    using g(2) by (rule collapse_append_left)
  moreover have "collapse_newlines ((i # g') @ b) = (i # g') @ collapse_newlines b"
    using assms(1) g(1) by (intro collapse_append_plain) simp
  ultimately show ?thesis using g(1) by simp
qed

lemma collapse_run:
  assumes "a = [] \<or> last a \<noteq> nl" "\<not> starts_nl b"
  shows "collapse_newlines (a @ replicate (Suc n) nl @ b) = collapse_newlines a @ nl # collapse_newlines b"
proof -
  have d: "dropWhile (\<lambda>d. d = nl) (replicate n nl @ b) = b"
    using assms(2) by (induction n) (cases b, auto)
  have run: "collapse_newlines (replicate (Suc n) nl @ b) = nl # collapse_newlines b"
    using d by (simp add: collapse_Cons del: collapse_newlines.simps)
  show ?thesis
  proof (cases a rule: rev_cases)
    case Nil
    with run show ?thesis by (simp del: replicate.simps collapse_newlines.simps(2))
  next
    case (snoc a' i)
    with assms(1) have i: "i \<noteq> nl" by simp
    have "collapse_newlines (a' @ i # (replicate (Suc n) nl @ b))
          = collapse_newlines a' @ collapse_newlines (i # (replicate (Suc n) nl @ b))"
      using i by (rule collapse_append_left)
    also have "collapse_newlines (i # (replicate (Suc n) nl @ b))
          = i # collapse_newlines (replicate (Suc n) nl @ b)"
      using i by (simp only: collapse_Cons if_False)
    finally have 1: "collapse_newlines (a @ replicate (Suc n) nl @ b)
          = collapse_newlines a' @ i # nl # collapse_newlines b"
      using snoc run by (simp del: replicate.simps collapse_newlines.simps(2))
    have "collapse_newlines (a' @ i # []) = collapse_newlines a' @ collapse_newlines (i # [])"
      using i by (rule collapse_append_left)
    with snoc have 2: "collapse_newlines a = collapse_newlines a' @ [i]" by simp
    from 1 2 show ?thesis by simp
  qed
qed



subsection \<open>Idempotence\<close>




subsection \<open>Output of the notes generator\<close>




subsection \<open>Characters of the output\<close>

text \<open>
  C4 (amended). The output has no character above U+007F; the ASCII characters other
  than asterisk and newline, control characters among them, all stay, in their order.
\<close>

theorem clean_text_ascii_only:
  "(\<forall>c\<in>set (clean_text x). c \<le> 127) \<and> filter plain (clean_text x) = filter plain x"
  using clean_text_ascii filter_plain_clean_text by blast

theorem clean_text_ascii_only_witness:
  "list_all (\<lambda>c. c \<le> 127) (clean_text [7, 233, 97, 128218])
   \<and> filter plain (clean_text [7, 233, 97, 128218]) = filter plain [7, 233, 97, 128218]
   \<and> clean_text [7, 233, 97, 128218] = [7, 97]"
  using clean_text_ascii_only[of "[7, 233, 97, 128218]"]
  by (simp add: clean_text_def strip_non_ascii_def list_all_iff)

text \<open>
  C4 as stated fails: the control character U+0007 is not printable and stays.
\<close>

theorem clean_text_keeps_control:
  "clean_text [7] = [7] \<and> \<not> printable_ascii 7"
  by (simp add: clean_text_def strip_non_ascii_def printable_ascii_def)

subsection \<open>Unwrapping a span\<close>

text \<open>
  C5 (amended). Let \<open>pre\<close> and \<open>inner\<close> have no two asterisks side by side and not end
  with an asterisk, and let \<open>inner\<close> have no newline. Then normalizing
  \<open>pre ** inner ** post\<close> gives the same as normalizing \<open>pre inner post\<close>; and when
  \<open>inner\<close> is ASCII only and not empty, the result is the normalized \<open>pre\<close>, then
  \<open>inner\<close> unchanged, then the normalized \<open>post\<close>.
\<close>

theorem clean_text_unwraps_span:
  assumes "star_safe pre" "star_safe inner" "nl \<notin> set inner"
  shows "clean_text (pre @ star # star # inner @ star # star # post)
           = clean_text (pre @ inner @ post)
    \<and> ((\<forall>c\<in>set inner. c \<le> 127) \<and> inner \<noteq> [] \<longrightarrow>
         clean_text (pre @ star # star # inner @ star # star # post)
           = clean_text pre @ inner @ clean_text post)"
proof (intro conjI impI)
  have 1: "sub_bold (pre @ star # star # inner @ star # star # post) = pre @ inner @ sub_bold post"
    using assms by (rule sub_bold_unwrap)
  have "sub_bold (inner @ post) = inner @ sub_bold post"
    using assms(2) by (rule sub_bold_append_safe)
  then have 2: "sub_bold (pre @ inner @ post) = pre @ inner @ sub_bold post"
    using sub_bold_append_safe[OF assms(1), of "inner @ post"] by simp
  show "clean_text (pre @ star # star # inner @ star # star # post)
          = clean_text (pre @ inner @ post)"
    by (simp only: clean_text_def 1 2)
  assume a: "(\<forall>c\<in>set inner. c \<le> 127) \<and> inner \<noteq> []"
  have 3: "sub_bold pre = pre" using sub_bold_append_safe[OF assms(1), of "[]"] by simp
  have "strip_non_ascii (pre @ inner @ sub_bold post)
          = strip_non_ascii pre @ inner @ strip_non_ascii (sub_bold post)"
    using a by (simp add: strip_non_ascii_def)
  then have "clean_text (pre @ star # star # inner @ star # star # post)
          = collapse_newlines (strip_non_ascii pre @ inner @ strip_non_ascii (sub_bold post))"
    by (simp only: clean_text_def 1)
  also have "\<dots> = collapse_newlines (strip_non_ascii pre) @ inner
                    @ collapse_newlines (strip_non_ascii (sub_bold post))"
    using assms(3) a by (intro collapse_around) simp_all
  finally show "clean_text (pre @ star # star # inner @ star # star # post)
          = clean_text pre @ inner @ clean_text post"
    by (simp only: clean_text_def 3)
qed

theorem clean_text_unwraps_span_witness:
  "star_safe (ustr ''x *'' @ [nl]) \<and> star_safe (ustr ''bold text'')
   \<and> nl \<notin> set (ustr ''bold text'')
   \<and> list_all (\<lambda>c. c \<le> 127) (ustr ''bold text'') \<and> ustr ''bold text'' \<noteq> []
   \<and> clean_text ((ustr ''x *'' @ [nl]) @ star # star # ustr ''bold text'' @ star # star # ustr ''**y**'')
       = clean_text (ustr ''x *'' @ [nl]) @ ustr ''bold text'' @ clean_text (ustr ''**y**'')"
proof -
  have h: "star_safe (ustr ''x *'' @ [nl])" "star_safe (ustr ''bold text'')"
    "nl \<notin> set (ustr ''bold text'')"
    "(\<forall>c\<in>set (ustr ''bold text''). c \<le> 127) \<and> ustr ''bold text'' \<noteq> []"
    by (simp_all add: star_safe_def ustr_def)
  have r: "clean_text ((ustr ''x *'' @ [nl]) @ star # star # ustr ''bold text'' @ star # star # ustr ''**y**'')
       = clean_text (ustr ''x *'' @ [nl]) @ ustr ''bold text'' @ clean_text (ustr ''**y**'')"
    using clean_text_unwraps_span[OF h(1,2,3), of "ustr ''**y**''"] h(4) by blast
  from h r show ?thesis unfolding list_all_iff by blast
qed

text \<open>
  C5 as stated fails: a span that holds a newline keeps its markers (\<open>**a\<close>, newline,
  \<open>b**\<close> is not changed); a span that holds a character above U+007F is not kept
  unchanged (the span around U+00E9 becomes the empty text); and asterisks before the
  span change the pairing (\<open>****a**\<close> becomes \<open>a**\<close>).
\<close>

theorem clean_text_span_not_unwrapped:
  "clean_text [42, 42, 97, 10, 98, 42, 42] = [42, 42, 97, 10, 98, 42, 42]
   \<and> clean_text [42, 42, 233, 42, 42] = []
   \<and> clean_text [42, 42, 42, 42, 97, 42, 42] = [97, 42, 42]"
  by (simp add: clean_text_def strip_non_ascii_def)

subsection \<open>Newline runs\<close>

lemma starts2_append_nl: "starts2 (c # cs @ nl # r) = starts2 (c # cs)"
  by (cases cs) auto

lemma find_close_append_nl:
  "find_close (xs @ nl # r) =
     (case find_close xs of None \<Rightarrow> None | Some (g, r') \<Rightarrow> Some (g, r' @ nl # r))"
proof (induction xs)
  case Nil
  show ?case by simp
next
  case (Cons c cs)
  show ?case
  proof (cases "starts2 (c # cs)")
    case True
    then have "starts2 (c # cs @ nl # r)" by (simp add: starts2_append_nl)
    moreover from True have "cs \<noteq> []" by auto
    ultimately show ?thesis using True by simp
  next
    case False
    then have "\<not> starts2 (c # cs @ nl # r)" by (simp add: starts2_append_nl)
    with False Cons.IH show ?thesis by (auto split: option.splits)
  qed
qed

lemma sub_bold_split_nl:
  "sub_bold (a @ nl # r) = sub_bold (a @ [nl]) @ sub_bold r"
proof (induction a rule: sub_bold.induct)
  case 1
  show ?case by simp
next
  case (2 c cs)
  show ?case
  proof (cases "starts2 (c # cs)")
    case False
    then have "\<not> starts2 (c # cs @ nl # r)" "\<not> starts2 (c # cs @ [nl])"
      by (simp_all add: starts2_append_nl)
    with "2.IH"(3)[OF False] show ?thesis by simp
  next
    case True
    then have s: "starts2 (c # cs @ nl # r)" "starts2 (c # cs @ [nl])"
      by (simp_all add: starts2_append_nl)
    from True have ne: "cs \<noteq> []" by auto
    then have t: "tl (cs @ nl # r) = tl cs @ nl # r" "tl (cs @ [nl]) = tl cs @ [nl]" by simp_all
    show ?thesis
    proof (cases "find_close (tl cs)")
      case None
      then have "find_close (tl cs @ nl # r) = None" "find_close (tl cs @ [nl]) = None"
        by (simp_all add: find_close_append_nl)
      with s t "2.IH"(1)[OF True None] show ?thesis by simp
    next
      case (Some p)
      obtain g r' where p: "p = (g, r')" by (cases p)
      with Some have "find_close (tl cs @ nl # r) = Some (g, r' @ nl # r)"
        "find_close (tl cs @ [nl]) = Some (g, r' @ [nl])"
        by (simp_all add: find_close_append_nl)
      with s t "2.IH"(2)[OF True Some p[symmetric]] show ?thesis by simp
    qed
  qed
qed

lemma sub_bold_ends_nl: "sub_bold (a @ [nl]) \<noteq> [] \<and> last (sub_bold (a @ [nl])) = nl"
proof (induction a rule: sub_bold.induct)
  case 1
  show ?case by simp
next
  case (2 c cs)
  show ?case
  proof (cases "starts2 (c # cs)")
    case False
    then have "\<not> starts2 (c # cs @ [nl])" by (simp add: starts2_append_nl)
    with "2.IH"(3)[OF False] show ?thesis by simp
  next
    case True
    then have s: "starts2 (c # cs @ [nl])" by (simp add: starts2_append_nl)
    from True have ne: "cs \<noteq> []" by auto
    then have t: "tl (cs @ [nl]) = tl cs @ [nl]" by simp
    show ?thesis
    proof (cases "find_close (tl cs)")
      case None
      then have "find_close (tl cs @ [nl]) = None" by (simp add: find_close_append_nl)
      with s t "2.IH"(1)[OF True None] show ?thesis by simp
    next
      case (Some p)
      obtain g r' where p: "p = (g, r')" by (cases p)
      with Some have "find_close (tl cs @ [nl]) = Some (g, r' @ [nl])"
        by (simp add: find_close_append_nl)
      with s t "2.IH"(2)[OF True Some p[symmetric]] show ?thesis by simp
    qed
  qed
qed

lemma sub_bold_nl_run: "sub_bold (replicate m nl @ b) = replicate m nl @ sub_bold b"
  by (induction m) auto

lemma collapse_double_nl:
  "collapse_newlines (x @ nl # nl # y) = collapse_newlines (x @ nl # y)"
proof (induction "length x" arbitrary: x rule: less_induct)
  case less
  show ?case
  proof (cases x)
    case Nil
    then show ?thesis by (simp add: collapse_Cons del: collapse_newlines.simps)
  next
    case (Cons c cs)
    show ?thesis
    proof (cases "c = nl")
      case False
      have "length cs < length x" using Cons by simp
      from less[OF this] Cons False show ?thesis
        by (simp add: collapse_Cons del: collapse_newlines.simps)
    next
      case True
      let ?P = "\<lambda>d. d = nl"
      show ?thesis
      proof (cases "\<forall>d\<in>set cs. d = nl")
        case all: True
        then have "dropWhile ?P (cs @ nl # nl # y) = dropWhile ?P y"
          "dropWhile ?P (cs @ nl # y) = dropWhile ?P y"
          by (simp_all add: dropWhile_append)
        with Cons True show ?thesis by (simp add: collapse_Cons del: collapse_newlines.simps)
      next
        case nall: False
        then have d: "dropWhile ?P (cs @ nl # nl # y) = dropWhile ?P cs @ nl # nl # y"
          "dropWhile ?P (cs @ nl # y) = dropWhile ?P cs @ nl # y"
          by (auto simp: dropWhile_append)
        have "length (dropWhile ?P cs) < length x"
          using Cons length_dropWhile_le[of ?P cs] by simp
        from less[OF this] d Cons True show ?thesis
          by (simp add: collapse_Cons del: collapse_newlines.simps)
      qed
    qed
  qed
qed

lemma collapse_nl_run:
  "collapse_newlines (x @ nl # replicate m nl @ y) = collapse_newlines (x @ nl # y)"
proof (induction m)
  case 0
  show ?case by simp
next
  case (Suc m)
  have "collapse_newlines (x @ nl # nl # replicate m nl @ y)
          = collapse_newlines (x @ nl # replicate m nl @ y)"
    by (rule collapse_double_nl)
  with Suc show ?case by simp
qed

lemma clean_text_run:
  "clean_text (a @ replicate (Suc (Suc n)) nl @ b) = clean_text (a @ nl # b)"
proof -
  let ?p = "butlast (sub_bold (a @ [nl]))"
  have e: "sub_bold (a @ [nl]) = ?p @ [nl]"
    using sub_bold_ends_nl[of a] by (metis append_butlast_last_id)
  have "sub_bold (a @ nl # replicate (Suc n) nl @ b)
          = sub_bold (a @ [nl]) @ sub_bold (replicate (Suc n) nl @ b)"
    by (rule sub_bold_split_nl)
  then have 1: "sub_bold (a @ replicate (Suc (Suc n)) nl @ b)
          = ?p @ nl # replicate (Suc n) nl @ sub_bold b"
    using e sub_bold_nl_run[of "Suc n" b] by simp
  have "sub_bold (a @ nl # b) = sub_bold (a @ [nl]) @ sub_bold b" by (rule sub_bold_split_nl)
  then have 2: "sub_bold (a @ nl # b) = ?p @ nl # sub_bold b" using e by simp
  have 3: "strip_non_ascii (?p @ nl # replicate (Suc n) nl @ sub_bold b)
          = strip_non_ascii ?p @ nl # replicate (Suc n) nl @ strip_non_ascii (sub_bold b)"
    by (simp add: strip_non_ascii_def)
  have 4: "strip_non_ascii (?p @ nl # sub_bold b)
          = strip_non_ascii ?p @ nl # strip_non_ascii (sub_bold b)"
    by (simp add: strip_non_ascii_def)
  show ?thesis
    by (simp only: clean_text_def 1 2 3 4 collapse_nl_run)
qed

lemma sub_bold_no_star: "star \<notin> set s \<Longrightarrow> sub_bold s = s"
  by (induction s) (auto simp: starts2_iff)

lemma clean_text_plain_run:
  assumes "list_all plain a" "list_all plain b"
  shows "clean_text (a @ replicate (Suc n) nl @ b) = a @ nl # b"
proof -
  from assms have s: "star \<notin> set (a @ replicate (Suc n) nl @ b)"
    by (auto simp: list_all_iff plain_def)
  from assms have k: "\<forall>c\<in>set (a @ replicate (Suc n) nl @ b). c \<le> 127"
    by (auto simp: list_all_iff plain_def)
  from assms have na: "nl \<notin> set a" and nb: "nl \<notin> set b" by (auto simp: list_all_iff plain_def)
  have 1: "clean_text (a @ replicate (Suc n) nl @ b)
             = collapse_newlines (a @ replicate (Suc n) nl @ b)"
    unfolding clean_text_def using sub_bold_no_star[OF s] strip_ascii_id[OF k] by simp
  have la: "a = [] \<or> last a \<noteq> nl" using na by (cases a rule: rev_cases) auto
  have sb: "\<not> starts_nl b" using nb by (cases b) auto
  have ca: "collapse_newlines a = a" using collapse_append_plain[OF na, of "[]"] by simp
  have cb: "collapse_newlines b = b" using collapse_append_plain[OF nb, of "[]"] by simp
  from collapse_run[OF la sb, of n] 1 ca cb show ?thesis by simp
qed

text \<open>
  C6. The output has no two newlines side by side. A run of two or more newlines in the
  input counts as one newline: the output is the same as for the input with a single
  newline in place of the run. Between two texts of ASCII characters other than
  asterisk and newline, a run of newlines becomes exactly one newline and the two texts
  stay as they are.
\<close>

theorem clean_text_no_newline_run:
  "\<not> has_nl_run (clean_text x)
   \<and> clean_text (a @ replicate (Suc (Suc n)) nl @ b) = clean_text (a @ nl # b)
   \<and> (list_all plain a \<and> list_all plain b \<longrightarrow>
        clean_text (a @ replicate (Suc n) nl @ b) = a @ nl # b)"
proof (intro conjI impI)
  show "\<not> has_nl_run (clean_text x)"
    unfolding clean_text_def by (rule collapse_no_run)
  show "clean_text (a @ replicate (Suc (Suc n)) nl @ b) = clean_text (a @ nl # b)"
    by (rule clean_text_run)
  show "clean_text (a @ replicate (Suc n) nl @ b) = a @ nl # b"
    if "list_all plain a \<and> list_all plain b"
    using that clean_text_plain_run by blast
qed

theorem clean_text_no_newline_run_witness:
  "\<not> has_nl_run (clean_text ([10, 233] @ replicate 3 10 @ ustr ''**b**''))
   \<and> clean_text ([10, 233] @ replicate (Suc (Suc 1)) 10 @ ustr ''**b**'')
       = clean_text ([10, 233] @ 10 # ustr ''**b**'')
   \<and> clean_text ([10, 233] @ 10 # ustr ''**b**'') = 10 # ustr ''b''
   \<and> list_all plain (ustr ''a'') \<and> list_all plain (ustr ''b'')
   \<and> clean_text (ustr ''a'' @ replicate (Suc 2) 10 @ ustr ''b'') = ustr ''a'' @ 10 # ustr ''b''"
proof -
  have h: "list_all plain (ustr ''a'') \<and> list_all plain (ustr ''b'')"
    by (simp add: ustr_def plain_def)
  have c: "clean_text ([10, 233] @ 10 # ustr ''**b**'') = 10 # ustr ''b''"
    by (simp add: ustr_def clean_text_def strip_non_ascii_def)
  from clean_text_no_newline_run[of "[10, 233] @ replicate 3 10 @ ustr ''**b**''"
      "[10, 233]" 1 "ustr ''**b**''"]
    clean_text_no_newline_run[of "[]" "ustr ''a''" 2 "ustr ''b''"] h c
  show ?thesis by simp
qed

section \<open>Properties of the string operations and of the exporter's loops\<close>

lemma split_pair_nonempty: "split_pair a b s \<noteq> []"
  by (induction a b s rule: split_pair.induct) (auto split: list.splits)

lemma split_char_nonempty: "split_char sep s \<noteq> []"
  by (induction s) (auto split: list.splits)

lemma split_char_append:
  "split_char sep (a @ sep # r) = split_char sep a @ split_char sep r"
proof (induction a)
  case Nil
  show ?case by simp
next
  case (Cons c cs)
  obtain p ps where p: "split_char sep cs = p # ps"
    using split_char_nonempty[of sep cs] by (cases "split_char sep cs") auto
  with Cons show ?case by simp
qed

lemma split_char_pieces: "p \<in> set (split_char sep w) \<Longrightarrow> set p \<subseteq> set w"
proof (induction w arbitrary: p)
  case Nil
  then show ?case by simp
next
  case (Cons c cs)
  obtain q qs where q: "split_char sep cs = q # qs"
    using split_char_nonempty[of sep cs] by (cases "split_char sep cs") auto
  show ?case
  proof (cases "c = sep")
    case True
    with Cons.prems have "p = [] \<or> p \<in> set (split_char sep cs)" by simp
    with Cons.IH show ?thesis by auto
  next
    case False
    with Cons.prems q have "p = c # q \<or> p \<in> set qs" by simp
    moreover have "set q \<subseteq> set cs" using Cons.IH[of q] q by simp
    moreover have "p \<in> set qs \<Longrightarrow> set p \<subseteq> set cs" using Cons.IH[of p] q by simp
    ultimately show ?thesis by auto
  qed
qed

lemma filter_nonblank_blank:
  "\<not> nonblank w \<Longrightarrow> filter nonblank (split_char sep w) = []"
proof -
  assume b: "\<not> nonblank w"
  have "\<not> nonblank p" if "p \<in> set (split_char sep w)" for p
    using split_char_pieces[OF that] b by (auto simp: nonblank_def)
  then show ?thesis by (simp add: filter_empty_conv)
qed

lemma lines_drop_blank:
  "\<not> nonblank w \<Longrightarrow>
     filter nonblank (split_char nl (a @ nl # w @ nl # b))
       = filter nonblank (split_char nl (a @ nl # b))"
  using split_char_append[of nl a "w @ nl # b"] split_char_append[of nl w b]
    split_char_append[of nl a b] filter_nonblank_blank[of w nl]
  by simp

lemma py_in_pair:
  "py_in [a, b] (c # d # cs) = ((c = a \<and> d = b) \<or> py_in [a, b] (d # cs))"
  by (auto simp: py_startswith_def)

lemma split_pair_absent: "\<not> py_in [a, b] s \<Longrightarrow> split_pair a b s = [s]"
proof (induction a b s rule: split_pair.induct)
  case (3 a b c d cs)
  from "3.prems" have n: "\<not> (c = a \<and> d = b)" and r: "\<not> py_in [a, b] (d # cs)"
    by (auto simp only: py_in_pair)
  from "3.IH"(2)[OF n r] n show ?case by auto
qed simp_all

lemma str_join_Cons: "str_join sep (x # xs) = x @ concat (map (\<lambda>y. sep @ y) xs)"
  by (induction xs arbitrary: x) auto

lemma py_in_iff: "py_in sub s = (\<exists>a b. s = a @ sub @ b)"
proof (induction s)
  case Nil
  show ?case by auto
next
  case (Cons c cs)
  have p: "py_startswith sub (c # cs) = (\<exists>b. c # cs = sub @ b)"
    unfolding py_startswith_def
    by (metis append_eq_conv_conj append_take_drop_id)
  show ?case
  proof
    assume "py_in sub (c # cs)"
    then consider "py_startswith sub (c # cs)" | "py_in sub cs" by auto
    then show "\<exists>a b. c # cs = a @ sub @ b"
    proof cases
      case 1
      with p obtain b where "c # cs = [] @ sub @ b" by auto
      then show ?thesis by blast
    next
      case 2
      with Cons.IH obtain a b where "cs = a @ sub @ b" by auto
      then have "c # cs = (c # a) @ sub @ b" by simp
      then show ?thesis by blast
    qed
  next
    assume "\<exists>a b. c # cs = a @ sub @ b"
    then obtain a b where e: "c # cs = a @ sub @ b" by blast
    show "py_in sub (c # cs)"
    proof (cases a)
      case Nil
      with e have "\<exists>b. c # cs = sub @ b" by auto
      with p have "py_startswith sub (c # cs)" by simp
      then show ?thesis by simp
    next
      case (Cons a0 as)
      with e have "cs = as @ sub @ b" by simp
      with Cons.IH show ?thesis by auto
    qed
  qed
qed

lemma all_dropWhile: "(\<forall>x\<in>set (dropWhile P xs). P x) = (\<forall>x\<in>set xs. P x)"
  by (induction xs) auto

lemma py_strip_nonblank: "(py_strip line \<noteq> []) = nonblank line"
proof -
  have "(py_strip line = []) = (\<forall>x\<in>set (dropWhile py_isspace line). py_isspace x)"
    by (simp only: py_strip_def rev_is_Nil_conv dropWhile_eq_Nil_conv set_rev)
  also have "\<dots> = (\<forall>x\<in>set line. py_isspace x)" by (rule all_dropWhile)
  finally show ?thesis by (auto simp: nonblank_def)
qed

lemma notes_loop_eq:
  "notes_loop lines pdf = pdf @ concat (map note_ops (filter nonblank lines))"
proof (induction lines arbitrary: pdf)
  case Nil
  show ?case by simp
next
  case (Cons line lines)
  show ?case
  proof (cases "nonblank line")
    case True
    then have "py_strip line \<noteq> []" by (simp add: py_strip_nonblank)
    with True show ?thesis by (simp add: Cons.IH note_ops_def Let_def)
  next
    case False
    then have "py_strip line = []" using py_strip_nonblank[of line] by simp
    with False show ?thesis by (simp add: Cons.IH)
  qed
qed

lemma questions_loop_eq:
  "questions_loop nd lines pdf = pdf @ concat (map (question_ops nd) (filter nonblank lines))"
proof (induction lines arbitrary: pdf)
  case Nil
  show ?case by simp
next
  case (Cons line lines)
  show ?case
  proof (cases "nonblank line")
    case True
    then have "py_strip line \<noteq> []" by (simp add: py_strip_nonblank)
    with True show ?thesis by (simp add: Cons.IH question_ops_def Let_def)
  next
    case False
    then have "py_strip line = []" using py_strip_nonblank[of line] by simp
    with False show ?thesis by (simp add: Cons.IH)
  qed
qed

lemma numbered_iff:
  "numbered nd line =
     (\<exists>ds rest. ds \<noteq> [] \<and> (\<forall>d\<in>set ds. is_digit nd d) \<and> line = ds @ 46 # rest)"
proof
  assume n: "numbered nd line"
  let ?ds = "takeWhile (is_digit nd) line"
  from n obtain rest where "dropWhile (is_digit nd) line = 46 # rest"
    by (cases "dropWhile (is_digit nd) line") (auto simp: numbered_def py_startswith_def)
  then have "line = ?ds @ 46 # rest" by (metis takeWhile_dropWhile_id)
  moreover have "\<forall>d\<in>set ?ds. is_digit nd d" by (auto dest: set_takeWhileD)
  moreover from n have "?ds \<noteq> []" by (simp add: numbered_def)
  ultimately show "\<exists>ds rest. ds \<noteq> [] \<and> (\<forall>d\<in>set ds. is_digit nd d) \<and> line = ds @ 46 # rest"
    by blast
next
  assume "\<exists>ds rest. ds \<noteq> [] \<and> (\<forall>d\<in>set ds. is_digit nd d) \<and> line = ds @ 46 # rest"
  then obtain ds rest where h: "ds \<noteq> []" "\<forall>d\<in>set ds. is_digit nd d" "line = ds @ 46 # rest"
    by blast
  have nd46: "\<not> is_digit nd 46" by (simp add: is_digit_def)
  from h(2) have "takeWhile (is_digit nd) (ds @ 46 # rest) = ds @ takeWhile (is_digit nd) (46 # rest)"
    by (simp add: takeWhile_append2)
  with nd46 have t: "takeWhile (is_digit nd) line = ds" using h(3) by simp
  from h(2) have "dropWhile (is_digit nd) (ds @ 46 # rest) = dropWhile (is_digit nd) (46 # rest)"
    by (simp add: dropWhile_append2)
  with nd46 have d: "dropWhile (is_digit nd) line = 46 # rest" using h(3) by simp
  from t d h(1) show "numbered nd line" by (simp add: numbered_def py_startswith_def)
qed




lemma build_pdf_eq:
  "build_pdf nd notes questions subject =
     [SetAutoPageBreak True 15, AddPage,
      SetFont (ustr ''Arial'') (ustr ''B'') 16,
      Cell 200 10 (ustr ''Study Notes on '' @ subject) True (ustr ''C''), Ln 10,
      SetFont (ustr ''Arial'') (ustr ''B'') 14,
      Cell 200 10 (ustr ''Detailed Notes'') True [], Ln 5,
      SetFont (ustr ''Arial'') [] 12]
     @ concat (map note_ops (filter nonblank (split_char nl notes)))
     @ [Ln 10, SetFont (ustr ''Arial'') (ustr ''B'') 14,
        Cell 200 10 (ustr ''Placement Aptitude Questions'') True [], Ln 5,
        SetFont (ustr ''Arial'') [] 12]
     @ concat (map (question_ops nd) (filter nonblank (split_char nl questions)))"
  by (simp add: build_pdf_def Let_def notes_loop_eq questions_loop_eq)


section \<open>The transcript extractor\<close>

text \<open>
  C7. Parsing the identifier cannot fail: the split always has a last element, and a
  locator without \<open>v=\<close> is taken whole as the identifier. When the caption service
  raises \<open>e\<close>, and whenever the body of the \<open>try\<close> ends in an exception \<open>e\<close>, the
  extractor returns \<open>Error fetching transcript: \<close> followed by \<open>str(e)\<close>.
\<close>

theorem extract_transcript_never_raises:
  "(\<exists>video_id. py_last (split_pair 118 61 youtube_url) = Inr video_id)
   \<and> (\<not> py_in (ustr ''v='') youtube_url \<longrightarrow> last (split_pair 118 61 youtube_url) = youtube_url)
   \<and> (get_transcript (last (split_pair 118 61 youtube_url)) = Inl e \<longrightarrow>
        extract_transcript get_transcript youtube_url
          = ustr ''Error fetching transcript: '' @ exn_str e)
   \<and> (extract_try get_transcript youtube_url = Inl e \<longrightarrow>
        extract_transcript get_transcript youtube_url
          = ustr ''Error fetching transcript: '' @ exn_str e)"
proof (intro conjI impI)
  show "\<exists>video_id. py_last (split_pair 118 61 youtube_url) = Inr video_id"
    by (simp add: py_last_def split_pair_nonempty)
  show "last (split_pair 118 61 youtube_url) = youtube_url"
    if "\<not> py_in (ustr ''v='') youtube_url"
  proof -
    from that have "\<not> py_in [118, 61] youtube_url" by (simp add: ustr_def)
    then show ?thesis by (simp add: split_pair_absent)
  qed
  show "extract_transcript get_transcript youtube_url
          = ustr ''Error fetching transcript: '' @ exn_str e"
    if "get_transcript (last (split_pair 118 61 youtube_url)) = Inl e"
    using that by (simp add: extract_transcript_def extract_try_def py_last_def split_pair_nonempty)
  show "extract_transcript get_transcript youtube_url
          = ustr ''Error fetching transcript: '' @ exn_str e"
    if "extract_try get_transcript youtube_url = Inl e"
    using that by (simp add: extract_transcript_def)
qed

theorem extract_transcript_never_raises_witness:
  "\<not> py_in (ustr ''v='') (ustr ''youtu.be/abc'')
   \<and> last (split_pair 118 61 (ustr ''youtu.be/abc'')) = ustr ''youtu.be/abc''
   \<and> failing_service (ustr ''no captions'') (last (split_pair 118 61 (ustr ''youtu.be/abc'')))
       = Inl (PyException (ustr ''no captions''))
   \<and> extract_transcript (failing_service (ustr ''no captions'')) (ustr ''youtu.be/abc'')
       = ustr ''Error fetching transcript: no captions''"
proof -
  have h1: "\<not> py_in (ustr ''v='') (ustr ''youtu.be/abc'')"
    by (simp add: ustr_def py_startswith_def)
  have h2: "failing_service (ustr ''no captions'') (last (split_pair 118 61 (ustr ''youtu.be/abc'')))
       = Inl (PyException (ustr ''no captions''))"
    by (simp add: failing_service_def)
  from extract_transcript_never_raises[of "ustr ''youtu.be/abc''"
      "failing_service (ustr ''no captions'')" "PyException (ustr ''no captions'')"] h1 h2
  show ?thesis by (simp add: ustr_def)
qed

text \<open>
  C8. When the caption service returns fragments, the extractor returns their texts in
  the order given, with one space between two neighbours: the first text, then for
  every later fragment a space and its text. The timing takes no part.
\<close>

theorem extract_transcript_joins:
  assumes "get_transcript (last (split_pair 118 61 youtube_url)) = Inr transcript"
  shows "extract_transcript get_transcript youtube_url
           = str_join (ustr '' '') (map text transcript)
    \<and> extract_transcript get_transcript youtube_url
           = (case transcript of
                [] \<Rightarrow> []
              | f # fs \<Rightarrow> text f @ concat (map (\<lambda>g. 32 # text g) fs))"
proof -
  have 1: "extract_transcript get_transcript youtube_url
           = str_join (ustr '' '') (map text transcript)"
    using assms
    by (simp add: extract_transcript_def extract_try_def py_last_def split_pair_nonempty)
  have 2: "str_join (ustr '' '') (map text transcript)
           = (case transcript of
                [] \<Rightarrow> []
              | f # fs \<Rightarrow> text f @ concat (map (\<lambda>g. 32 # text g) fs))"
    by (cases transcript) (simp_all add: str_join_Cons ustr_def comp_def)
  from 1 2 show ?thesis by simp
qed

theorem extract_transcript_joins_witness:
  "last (split_pair 118 61 (ustr ''https://youtube.com/watch?v=abc123'')) = ustr ''abc123''
   \<and> extract_transcript
        (fixed_service [\<lparr>text = ustr ''Hello'', start = 0, duration = 2\<rparr>,
                        \<lparr>text = ustr ''world'', start = 2, duration = 3\<rparr>])
        (ustr ''https://youtube.com/watch?v=abc123'')
       = ustr ''Hello world''"
proof -
  have h: "fixed_service [\<lparr>text = ustr ''Hello'', start = 0, duration = 2\<rparr>,
                        \<lparr>text = ustr ''world'', start = 2, duration = 3\<rparr>]
             (last (split_pair 118 61 (ustr ''https://youtube.com/watch?v=abc123'')))
           = Inr [\<lparr>text = ustr ''Hello'', start = 0, duration = 2\<rparr>,
                  \<lparr>text = ustr ''world'', start = 2, duration = 3\<rparr>]"
    by (simp add: fixed_service_def)
  have v: "last (split_pair 118 61 (ustr ''https://youtube.com/watch?v=abc123'')) = ustr ''abc123''"
    by (simp add: ustr_def)
  from extract_transcript_joins[where get_transcript =
        "fixed_service [\<lparr>text = ustr ''Hello'', start = 0, duration = 2\<rparr>,
                        \<lparr>text = ustr ''world'', start = 2, duration = 3\<rparr>]"
      and youtube_url = "ustr ''https://youtube.com/watch?v=abc123''", OF h] v
  show ?thesis by (simp add: ustr_def)
qed

section \<open>The document exporter\<close>




text \<open>
  C10. The document is the heading calls, then for every line of the notes that is not
  blank the multi-line cell of the line, after an indent cell when the line starts with
  a bullet marker, then the calls of the second heading, then for every line of the
  questions that is not blank the multi-line cell of the line, after a vertical step of
  3 when the line starts with digits and a period. A line is blank exactly when it is
  empty or holds whitespace only, so such a line of either body puts nothing into the
  document: with or without it the document is the same.
\<close>

theorem exporter_drops_blank_lines:
  "build_pdf nd notes questions subject =
     [SetAutoPageBreak True 15, AddPage,
      SetFont (ustr ''Arial'') (ustr ''B'') 16,
      Cell 200 10 (ustr ''Study Notes on '' @ subject) True (ustr ''C''), Ln 10,
      SetFont (ustr ''Arial'') (ustr ''B'') 14,
      Cell 200 10 (ustr ''Detailed Notes'') True [], Ln 5,
      SetFont (ustr ''Arial'') [] 12]
     @ concat (map (\<lambda>line.
                 (if py_startswith [45] line \<or> py_startswith [star] line
                     \<or> py_startswith [8226] line
                  then [Cell 10 0 [] False []] else []) @ [MultiCell 0 7 line])
          (filter (\<lambda>line. \<exists>c\<in>set line. \<not> py_isspace c) (split_char nl notes)))
     @ [Ln 10, SetFont (ustr ''Arial'') (ustr ''B'') 14,
        Cell 200 10 (ustr ''Placement Aptitude Questions'') True [], Ln 5,
        SetFont (ustr ''Arial'') [] 12]
     @ concat (map (\<lambda>line.
                 (if numbered nd line then [Ln 3] else []) @ [MultiCell 0 7 line])
          (filter (\<lambda>line. \<exists>c\<in>set line. \<not> py_isspace c) (split_char nl questions)))
   \<and> numbered nd line
       = (\<exists>ds rest. ds \<noteq> [] \<and> (\<forall>d\<in>set ds. is_digit nd d) \<and> line = ds @ 46 # rest)
   \<and> ((\<forall>c\<in>set w. py_isspace c) \<longrightarrow>
        build_pdf nd (a @ nl # w @ nl # b) questions subject
          = build_pdf nd (a @ nl # b) questions subject
        \<and> build_pdf nd notes (a @ nl # w @ nl # b) subject
          = build_pdf nd notes (a @ nl # b) subject)"
proof (intro conjI impI)
  have n: "nonblank = (\<lambda>line. \<exists>c\<in>set line. \<not> py_isspace c)"
    by (rule ext) (simp add: nonblank_def)
  have o: "note_ops = (\<lambda>line.
                 (if py_startswith [45] line \<or> py_startswith [star] line
                     \<or> py_startswith [8226] line
                  then [Cell 10 0 [] False []] else []) @ [MultiCell 0 7 line])"
    by (rule ext) (simp add: note_ops_def)
  have q: "question_ops nd = (\<lambda>line.
                 (if numbered nd line then [Ln 3] else []) @ [MultiCell 0 7 line])"
    by (rule ext) (simp add: question_ops_def)
  show "build_pdf nd notes questions subject =
     [SetAutoPageBreak True 15, AddPage,
      SetFont (ustr ''Arial'') (ustr ''B'') 16,
      Cell 200 10 (ustr ''Study Notes on '' @ subject) True (ustr ''C''), Ln 10,
      SetFont (ustr ''Arial'') (ustr ''B'') 14,
      Cell 200 10 (ustr ''Detailed Notes'') True [], Ln 5,
      SetFont (ustr ''Arial'') [] 12]
     @ concat (map (\<lambda>line.
                 (if py_startswith [45] line \<or> py_startswith [star] line
                     \<or> py_startswith [8226] line
                  then [Cell 10 0 [] False []] else []) @ [MultiCell 0 7 line])
          (filter (\<lambda>line. \<exists>c\<in>set line. \<not> py_isspace c) (split_char nl notes)))
     @ [Ln 10, SetFont (ustr ''Arial'') (ustr ''B'') 14,
        Cell 200 10 (ustr ''Placement Aptitude Questions'') True [], Ln 5,
        SetFont (ustr ''Arial'') [] 12]
     @ concat (map (\<lambda>line.
                 (if numbered nd line then [Ln 3] else []) @ [MultiCell 0 7 line])
          (filter (\<lambda>line. \<exists>c\<in>set line. \<not> py_isspace c) (split_char nl questions)))"
    using build_pdf_eq[of nd "notes" questions subject] unfolding n o q .
  show "numbered nd line
       = (\<exists>ds rest. ds \<noteq> [] \<and> (\<forall>d\<in>set ds. is_digit nd d) \<and> line = ds @ 46 # rest)"
    by (rule numbered_iff)
  assume "\<forall>c\<in>set w. py_isspace c"
  then have b: "\<not> nonblank w" by (simp add: nonblank_def)
  show "build_pdf nd (a @ nl # w @ nl # b) questions subject
          = build_pdf nd (a @ nl # b) questions subject"
    by (simp only: build_pdf_eq lines_drop_blank[OF b])
  show "build_pdf nd notes (a @ nl # w @ nl # b) subject
          = build_pdf nd notes (a @ nl # b) subject"
    by (simp only: build_pdf_eq lines_drop_blank[OF b])
qed

theorem exporter_drops_blank_lines_witness:
  "build_pdf ascii_digits_only (ustr ''- key'' @ nl # ustr ''  '' @ nl # ustr ''text'')
     (ustr ''12. Why?'' @ nl # nl # ustr ''Because.'') (ustr ''DBMS'')
     = [SetAutoPageBreak True 15, AddPage,
        SetFont (ustr ''Arial'') (ustr ''B'') 16,
        Cell 200 10 (ustr ''Study Notes on DBMS'') True (ustr ''C''), Ln 10,
        SetFont (ustr ''Arial'') (ustr ''B'') 14,
        Cell 200 10 (ustr ''Detailed Notes'') True [], Ln 5,
        SetFont (ustr ''Arial'') [] 12,
        Cell 10 0 [] False [], MultiCell 0 7 (ustr ''- key''), MultiCell 0 7 (ustr ''text''),
        Ln 10, SetFont (ustr ''Arial'') (ustr ''B'') 14,
        Cell 200 10 (ustr ''Placement Aptitude Questions'') True [], Ln 5,
        SetFont (ustr ''Arial'') [] 12,
        Ln 3, MultiCell 0 7 (ustr ''12. Why?''), MultiCell 0 7 (ustr ''Because.'')]
   \<and> list_all py_isspace (ustr ''  '')
   \<and> build_pdf ascii_digits_only (ustr ''- key'' @ nl # ustr ''  '' @ nl # ustr ''text'')
        (ustr ''12. Why?'') (ustr ''DBMS'')
       = build_pdf ascii_digits_only (ustr ''- key'' @ nl # ustr ''text'')
           (ustr ''12. Why?'') (ustr ''DBMS'')"
proof -
  have b: "\<forall>c\<in>set (ustr ''  ''). py_isspace c" by (simp add: ustr_def py_isspace_def)
  have 1: "build_pdf ascii_digits_only (ustr ''- key'' @ nl # ustr ''  '' @ nl # ustr ''text'')
     (ustr ''12. Why?'' @ nl # nl # ustr ''Because.'') (ustr ''DBMS'')
     = [SetAutoPageBreak True 15, AddPage,
        SetFont (ustr ''Arial'') (ustr ''B'') 16,
        Cell 200 10 (ustr ''Study Notes on DBMS'') True (ustr ''C''), Ln 10,
        SetFont (ustr ''Arial'') (ustr ''B'') 14,
        Cell 200 10 (ustr ''Detailed Notes'') True [], Ln 5,
        SetFont (ustr ''Arial'') [] 12,
        Cell 10 0 [] False [], MultiCell 0 7 (ustr ''- key''), MultiCell 0 7 (ustr ''text''),
        Ln 10, SetFont (ustr ''Arial'') (ustr ''B'') 14,
        Cell 200 10 (ustr ''Placement Aptitude Questions'') True [], Ln 5,
        SetFont (ustr ''Arial'') [] 12,
        Ln 3, MultiCell 0 7 (ustr ''12. Why?''), MultiCell 0 7 (ustr ''Because.'')]"
    using exporter_drops_blank_lines[of ascii_digits_only
        "ustr ''- key'' @ nl # ustr ''  '' @ nl # ustr ''text''"
        "ustr ''12. Why?'' @ nl # nl # ustr ''Because.''" "ustr ''DBMS''"]
    by (simp add: ustr_def py_isspace_def py_startswith_def numbered_def is_digit_def
        ascii_digits_only_def)
  have 2: "build_pdf ascii_digits_only (ustr ''- key'' @ nl # ustr ''  '' @ nl # ustr ''text'')
        (ustr ''12. Why?'') (ustr ''DBMS'')
       = build_pdf ascii_digits_only (ustr ''- key'' @ nl # ustr ''text'')
           (ustr ''12. Why?'') (ustr ''DBMS'')"
    using exporter_drops_blank_lines[where nd = ascii_digits_only and w = "ustr ''  ''"
        and a = "ustr ''- key''" and b = "ustr ''text''" and questions = "ustr ''12. Why?''"
        and subject = "ustr ''DBMS''"] b
    by blast
  from 1 2 b show ?thesis by (simp add: list_all_iff)
qed

section \<open>The pipeline\<close>

text \<open>
  C2. Let \<open>t\<close> be the extracted transcript. When \<open>t\<close> is not empty and does not
  contain \<open>Error\<close>, the run shows the success message first and goes on to the notes,
  the questions and the export: when both generations and the write succeed, it shows
  the notes and the questions, writes the file and offers it for download. Otherwise
  the run shows the one failure message and nothing else, writes no file and raises
  nothing, whatever the services would answer. In particular this is so when \<open>Error\<close>
  stands anywhere in \<open>t\<close>.
\<close>

theorem main_button_gate:
  assumes "t = extract_transcript get_transcript youtube_link"
  shows
   "(t \<noteq> [] \<and> \<not> py_in (ustr ''Error'') t \<longrightarrow>
       (\<exists>rest. ui (main_button get_transcript generate_content pdf_output nd subject
                     youtube_link fs) = St_success transcript_ok_msg # rest)
       \<and> (generate_content (notes_prompt subject @ t) = Inr n
            \<and> generate_content (questions_prompt subject) = Inr q
            \<and> pdf_output (subject @ ustr ''_study_notes.pdf'')
                 (build_pdf nd (clean_text n) (clean_text q) subject) = None \<longrightarrow>
          main_button get_transcript generate_content pdf_output nd subject youtube_link fs
            = \<lparr>ui = [St_success transcript_ok_msg,
                     St_markdown notes_heading_md, St_write (clean_text n),
                     St_markdown questions_heading_md, St_write (clean_text q),
                     St_download_button download_label
                       (build_pdf nd (clean_text n) (clean_text q) subject)
                       (subject @ ustr ''_study_notes.pdf'') (ustr ''application/pdf'')],
               files_after = fs(subject @ ustr ''_study_notes.pdf''
                                  \<mapsto> build_pdf nd (clean_text n) (clean_text q) subject),
               raised = None\<rparr>))
    \<and> (\<not> (t \<noteq> [] \<and> \<not> py_in (ustr ''Error'') t) \<longrightarrow>
         main_button get_transcript generate_content pdf_output nd subject youtube_link fs
           = \<lparr>ui = [St_error failed_msg], files_after = fs, raised = None\<rparr>)
    \<and> ((\<exists>a b. t = a @ ustr ''Error'' @ b) \<longrightarrow>
         main_button get_transcript generate_content pdf_output nd subject youtube_link fs
           = \<lparr>ui = [St_error failed_msg], files_after = fs, raised = None\<rparr>)"
proof (intro conjI impI)
  let ?run = "main_button get_transcript generate_content pdf_output nd subject youtube_link fs"
  show "\<exists>rest. ui ?run = St_success transcript_ok_msg # rest"
    if "t \<noteq> [] \<and> \<not> py_in (ustr ''Error'') t"
    using that assms
    by (auto simp: main_button_def Let_def split: sum.splits option.splits prod.splits)
  show "?run = \<lparr>ui = [St_success transcript_ok_msg,
                     St_markdown notes_heading_md, St_write (clean_text n),
                     St_markdown questions_heading_md, St_write (clean_text q),
                     St_download_button download_label
                       (build_pdf nd (clean_text n) (clean_text q) subject)
                       (subject @ ustr ''_study_notes.pdf'') (ustr ''application/pdf'')],
               files_after = fs(subject @ ustr ''_study_notes.pdf''
                                  \<mapsto> build_pdf nd (clean_text n) (clean_text q) subject),
               raised = None\<rparr>"
    if "t \<noteq> [] \<and> \<not> py_in (ustr ''Error'') t"
      and "generate_content (notes_prompt subject @ t) = Inr n
            \<and> generate_content (questions_prompt subject) = Inr q
            \<and> pdf_output (subject @ ustr ''_study_notes.pdf'')
                 (build_pdf nd (clean_text n) (clean_text q) subject) = None"
    using that assms
    by (simp add: main_button_def Let_def generate_notes_def generate_aptitude_questions_def
        save_as_pdf_def)
  show "?run = \<lparr>ui = [St_error failed_msg], files_after = fs, raised = None\<rparr>"
    if "\<not> (t \<noteq> [] \<and> \<not> py_in (ustr ''Error'') t)"
    using that assms by (auto simp: main_button_def Let_def)
  show "?run = \<lparr>ui = [St_error failed_msg], files_after = fs, raised = None\<rparr>"
    if "\<exists>a b. t = a @ ustr ''Error'' @ b"
  proof -
    from that have "py_in (ustr ''Error'') t" by (simp only: py_in_iff)
    then show ?thesis using assms by (auto simp: main_button_def Let_def)
  qed
qed


theorem main_button_gate_witness:
  "extract_transcript
     (fixed_service [\<lparr>text = ustr ''Hello'', start = 0, duration = 2\<rparr>,
                     \<lparr>text = ustr ''world'', start = 2, duration = 3\<rparr>])
     (ustr ''https://youtube.com/watch?v=abc123'') = ustr ''Hello world''
   \<and> \<not> py_in (ustr ''Error'') (ustr ''Hello world'')
   \<and> main_button
        (fixed_service [\<lparr>text = ustr ''Hello'', start = 0, duration = 2\<rparr>,
                        \<lparr>text = ustr ''world'', start = 2, duration = 3\<rparr>])
        (const_llm (ustr ''**Intro**'')) output_ok ascii_digits_only
        (ustr ''Operating Systems (OS)'') (ustr ''https://youtube.com/watch?v=abc123'') Map.empty
       = \<lparr>ui = [St_success transcript_ok_msg,
                St_markdown notes_heading_md, St_write (ustr ''Intro''),
                St_markdown questions_heading_md, St_write (ustr ''Intro''),
                St_download_button download_label
                  (build_pdf ascii_digits_only (ustr ''Intro'') (ustr ''Intro'')
                     (ustr ''Operating Systems (OS)''))
                  (ustr ''Operating Systems (OS)_study_notes.pdf'') (ustr ''application/pdf'')],
          files_after = [ustr ''Operating Systems (OS)_study_notes.pdf'' \<mapsto>
                  build_pdf ascii_digits_only (ustr ''Intro'') (ustr ''Intro'')
                     (ustr ''Operating Systems (OS)'')],
          raised = None\<rparr>
   \<and> extract_transcript
        (fixed_service [\<lparr>text = ustr ''Error handling'', start = 0, duration = 2\<rparr>])
        (ustr ''https://youtube.com/watch?v=abc123'') = ustr ''Error handling''
   \<and> main_button
        (fixed_service [\<lparr>text = ustr ''Error handling'', start = 0, duration = 2\<rparr>])
        (const_llm (ustr ''**Intro**'')) output_ok ascii_digits_only
        (ustr ''Operating Systems (OS)'') (ustr ''https://youtube.com/watch?v=abc123'') Map.empty
       = \<lparr>ui = [St_error failed_msg], files_after = Map.empty, raised = None\<rparr>"
proof -
  let ?ok = "fixed_service [\<lparr>text = ustr ''Hello'', start = 0, duration = 2\<rparr>,
                            \<lparr>text = ustr ''world'', start = 2, duration = 3\<rparr>]"
  let ?bad = "fixed_service [\<lparr>text = ustr ''Error handling'', start = 0, duration = 2\<rparr>]"
  let ?url = "ustr ''https://youtube.com/watch?v=abc123''"
  let ?subject = "ustr ''Operating Systems (OS)''"
  have t1: "ustr ''Hello world'' = extract_transcript ?ok ?url"
    by (simp add: extract_transcript_def extract_try_def py_last_def fixed_service_def ustr_def)
  have t2: "ustr ''Error handling'' = extract_transcript ?bad ?url"
    by (simp add: extract_transcript_def extract_try_def py_last_def fixed_service_def ustr_def)
  have c: "clean_text (ustr ''**Intro**'') = ustr ''Intro''"
    by (simp add: clean_text_def strip_non_ascii_def ustr_def)
  have g1: "ustr ''Hello world'' \<noteq> [] \<and> \<not> py_in (ustr ''Error'') (ustr ''Hello world'')"
    by (simp add: ustr_def py_startswith_def)
  have g2: "\<not> (ustr ''Error handling'' \<noteq> []
               \<and> \<not> py_in (ustr ''Error'') (ustr ''Error handling''))"
    by (simp add: ustr_def py_startswith_def)
  have s: "const_llm (ustr ''**Intro**'') (notes_prompt ?subject @ ustr ''Hello world'')
             = Inr (ustr ''**Intro**'')
           \<and> const_llm (ustr ''**Intro**'') (questions_prompt ?subject) = Inr (ustr ''**Intro**'')
           \<and> output_ok (?subject @ ustr ''_study_notes.pdf'')
                (build_pdf ascii_digits_only (clean_text (ustr ''**Intro**''))
                   (clean_text (ustr ''**Intro**'')) ?subject) = None"
    by (simp add: const_llm_def output_ok_def)
  have n: "?subject @ ustr ''_study_notes.pdf'' = ustr ''Operating Systems (OS)_study_notes.pdf''"
    by (simp add: ustr_def)
  have r1: "main_button ?ok (const_llm (ustr ''**Intro**'')) output_ok ascii_digits_only
              ?subject ?url Map.empty
       = \<lparr>ui = [St_success transcript_ok_msg,
                St_markdown notes_heading_md, St_write (ustr ''Intro''),
                St_markdown questions_heading_md, St_write (ustr ''Intro''),
                St_download_button download_label
                  (build_pdf ascii_digits_only (ustr ''Intro'') (ustr ''Intro'') ?subject)
                  (ustr ''Operating Systems (OS)_study_notes.pdf'') (ustr ''application/pdf'')],
          files_after = [ustr ''Operating Systems (OS)_study_notes.pdf'' \<mapsto>
                  build_pdf ascii_digits_only (ustr ''Intro'') (ustr ''Intro'') ?subject],
          raised = None\<rparr>"
    using main_button_gate[where t = "ustr ''Hello world''" and get_transcript = ?ok
        and youtube_link = ?url and generate_content = "const_llm (ustr ''**Intro**'')"
        and pdf_output = output_ok and nd = ascii_digits_only and subject = ?subject
        and fs = Map.empty and n = "ustr ''**Intro**''" and q = "ustr ''**Intro**''", OF t1]
      g1 s
    unfolding c n by blast
  have r2: "main_button ?bad (const_llm (ustr ''**Intro**'')) output_ok ascii_digits_only
              ?subject ?url Map.empty
       = \<lparr>ui = [St_error failed_msg], files_after = Map.empty, raised = None\<rparr>"
    using main_button_gate[where t = "ustr ''Error handling''" and get_transcript = ?bad
        and youtube_link = ?url and generate_content = "const_llm (ustr ''**Intro**'')"
        and pdf_output = output_ok and nd = ascii_digits_only and subject = ?subject
        and fs = Map.empty, OF t2]
      g2
    by blast
  from t1 t2 g1 r1 r2 show ?thesis by simp
qed

end
